theory Spec2Isabelle
  imports Main "HOL-Library.Word" "HOL-Library.Multiset"
begin

text \<open>
  A shallow embedding of the parameter layer of spaGO: the struct \<open>param\<close> with its
  methods and its binary serializer (package \<open>nn\<close>), the \<open>Reshape\<close> function
  (package \<open>fn\<close>) and the embeddings model with its processor (package
  \<open>embeddings\<close>). A Go function that can panic, end the process or return an error
  returns a sum, with the failure on the left; a method that mutates its receiver returns
  the receiver. The definitions come first, the properties after them.
\<close>

section \<open>Machine data: integers, bytes, readers\<close>

text \<open>
  Go's \<open>int\<close> and \<open>int64\<close> are 64-bit words (the repository is built for
  \<open>GOARCH=amd64\<close>). A \<open>float64\<close> is carried as its 64 raw bits
  (\<open>math.Float64bits\<close>): the binary format stores exactly these bits. Floating-point
  arithmetic is not part of HOL-Library, so the two arithmetic operations the parameter
  code needs (element addition and subtraction) are arguments \<open>fadd\<close> and \<open>fsub\<close>
  of the functions that use them.
\<close>

type_synonym byte = "8 word"
type_synonym goint = "64 word"
type_synonym float64 = "64 word"

datatype error =
    Fatal              \<comment> \<open>\<open>log.Fatal\<close>: the process exits\<close>
  | NilDereference     \<comment> \<open>runtime panic: nil pointer dereference\<close>
  | TypeAssertion      \<comment> \<open>runtime panic: interface conversion on a nil interface\<close>
  | MakeSliceRange     \<comment> \<open>runtime panic: makeslice: len out of range\<close>
  | ShapeError         \<comment> \<open>panic: matrices with not compatible size\<close>
  | SizeMismatch       \<comment> \<open>panic: incompatible sizes\<close>
  | UnexpectedEOF      \<comment> \<open>decoding error on truncated input\<close>
  | StorageError       \<comment> \<open>error returned by the key-value store\<close>

text \<open>\<open>binary.LittleEndian\<close>: the first byte is the least significant one.\<close>

definition PutUint64 :: "64 word \<Rightarrow> byte list" where
  "PutUint64 v = map (\<lambda>i. ucast (drop_bit (8 * i) v)) [0..<8]"

definition Uint64 :: "byte list \<Rightarrow> 64 word" where
  "Uint64 b = word_of_int (horner_sum uint (2 ^ 8) b)"

text \<open>
  \<open>utils.ReadFull(r, buf)\<close> on a reader over the remaining bytes: it fills \<open>buf\<close>
  (of length \<open>n\<close>) or returns an error. The result is the bytes read and the rest.
\<close>

definition ReadFull :: "nat \<Rightarrow> byte list \<Rightarrow> error + (byte list \<times> byte list)" where
  "ReadFull n r = (if length r < n then Inl UnexpectedEOF else Inr (take n r, drop n r))"

section \<open>Numeric values (package mat)\<close>

text \<open>
  Modelled from the spec: package \<open>mat\<close> is not among the source files. A dense matrix
  has its dimensions and its elements in row-major order (spec 3 and 4.1). Its binary
  encoding is the dimensions followed by the row-major elements (spec 4.5 (a)), taken here
  as two little-endian 64-bit integers and eight little-endian bytes per element.
\<close>

record Dense =
  rows :: goint
  cols :: goint
  data :: "float64 list"

definition Rows :: "Dense \<Rightarrow> goint" where
  "Rows d = rows d"

definition Columns :: "Dense \<Rightarrow> goint" where
  "Columns d = cols d"

definition Size_mat :: "Dense \<Rightarrow> goint" where
  "Size_mat d = word_of_nat (length (data d))"

text \<open>The shape invariant of a dense matrix: as many elements as its dimensions say.\<close>

definition wf_Dense :: "Dense \<Rightarrow> bool" where
  "wf_Dense d \<longleftrightarrow> length (data d) = unat (rows d) * unat (cols d)"

text \<open>
  Modelled from the spec: pool acquisition returns a zero-initialized buffer of the
  requested dimensions (spec 4.1 and 9). The pool itself (reuse of released buffers) is
  not modelled; \<open>mat.ReleaseDense\<close> has no effect on the values below.
\<close>

definition GetEmptyDenseWorkspace :: "goint \<Rightarrow> goint \<Rightarrow> Dense" where
  "GetEmptyDenseWorkspace r c = \<lparr>rows = r, cols = c, data = replicate (unat r * unat c) 0\<rparr>"

text \<open>
  Modelled from the spec: in-place arithmetic never changes the declared dimensions and
  there is no implicit broadcasting (spec 3, 4.1, 7): operands of different dimensions are
  a ShapeError.
\<close>

definition SameDims :: "Dense \<Rightarrow> Dense \<Rightarrow> bool" where
  "SameDims a b \<longleftrightarrow> rows a = rows b \<and> cols a = cols b"

definition AddInPlace :: "(float64 \<Rightarrow> float64 \<Rightarrow> float64) \<Rightarrow> Dense \<Rightarrow> Dense \<Rightarrow> error + Dense" where
  "AddInPlace fadd d other =
     (if SameDims d other then Inr (d\<lparr>data := map2 fadd (data d) (data other)\<rparr>)
      else Inl ShapeError)"

definition SubInPlace :: "(float64 \<Rightarrow> float64 \<Rightarrow> float64) \<Rightarrow> Dense \<Rightarrow> Dense \<Rightarrow> error + Dense" where
  "SubInPlace fsub d other =
     (if SameDims d other then Inr (d\<lparr>data := map2 fsub (data d) (data other)\<rparr>)
      else Inl ShapeError)"

text \<open>
  Modelled from the spec: \<open>Reshape(rows, cols)\<close> fails with SizeMismatch when
  \<open>rows * cols\<close> differs from the element count, and keeps the row-major order (4.1, 8).
\<close>

definition Reshape_mat :: "Dense \<Rightarrow> goint \<Rightarrow> goint \<Rightarrow> error + Dense" where
  "Reshape_mat d r c =
     (if Size_mat d \<noteq> r * c then Inl SizeMismatch else Inr (d\<lparr>rows := r, cols := c\<rparr>))"

definition MarshalBinaryTo :: "Dense \<Rightarrow> byte list" where
  "MarshalBinaryTo d = PutUint64 (rows d) @ PutUint64 (cols d) @ concat (map PutUint64 (data d))"

fun readFloats :: "nat \<Rightarrow> byte list \<Rightarrow> error + (float64 list \<times> byte list)" where
  "readFloats 0 r = Inr ([], r)"
| "readFloats (Suc n) r =
     (case ReadFull 8 r of
        Inl e \<Rightarrow> Inl e
      | Inr (buf, r') \<Rightarrow>
          (case readFloats n r' of
             Inl e \<Rightarrow> Inl e
           | Inr (vs, r'') \<Rightarrow> Inr (Uint64 buf # vs, r'')))"

definition NewUnmarshalBinaryFrom :: "byte list \<Rightarrow> error + (Dense \<times> byte list)" where
  "NewUnmarshalBinaryFrom r =
     (case ReadFull 8 r of
        Inl e \<Rightarrow> Inl e
      | Inr (b1, r1) \<Rightarrow>
          (case ReadFull 8 r1 of
             Inl e \<Rightarrow> Inl e
           | Inr (b2, r2) \<Rightarrow>
               (case readFloats (unat (Uint64 b1) * unat (Uint64 b2)) r2 of
                  Inl e \<Rightarrow> Inl e
                | Inr (vs, r3) \<Rightarrow> Inr (\<lparr>rows = Uint64 b1, cols = Uint64 b2, data = vs\<rparr>, r3))))"

definition MarshalBinarySlice :: "Dense list \<Rightarrow> byte list" where
  "MarshalBinarySlice ms = concat (map MarshalBinaryTo ms)"

fun NewUnmarshalBinarySlice :: "nat \<Rightarrow> byte list \<Rightarrow> error + (Dense list \<times> byte list)" where
  "NewUnmarshalBinarySlice 0 r = Inr ([], r)"
| "NewUnmarshalBinarySlice (Suc n) r =
     (case NewUnmarshalBinaryFrom r of
        Inl e \<Rightarrow> Inl e
      | Inr (d, r') \<Rightarrow>
          (case NewUnmarshalBinarySlice n r' of
             Inl e \<Rightarrow> Inl e
           | Inr (ds, r'') \<Rightarrow> Inr (d # ds, r'')))"

section \<open>The key-value store (package kvdb)\<close>

text \<open>
  Modelled from the spec: the backing store is a key to bytes table with
  \<open>Put(key, bytes) \<rightarrow> error\<close>, \<open>Get(key) \<rightarrow> (bytes, found, error)\<close> and
  \<open>Keys()\<close> (spec 6). Its implementation is not among the source files. An I/O failure
  is the flag \<open>broken\<close>: a broken store answers every call with an error.
\<close>

record KeyValueDB =
  entries :: "string \<rightharpoonup> byte list"
  broken :: bool

definition Put :: "KeyValueDB \<Rightarrow> string \<Rightarrow> byte list \<Rightarrow> error + KeyValueDB" where
  "Put db k v = (if broken db then Inl StorageError else Inr (db\<lparr>entries := (entries db)(k \<mapsto> v)\<rparr>))"

definition Get :: "KeyValueDB \<Rightarrow> string \<Rightarrow> error + byte list option" where
  "Get db k = (if broken db then Inl StorageError else Inr (entries db k))"

section \<open>Parameters (package nn)\<close>

datatype ParamsType = Weights | Biases | Undefined

record Payload =
  Label :: goint
  Data :: "Dense list"

definition NewEmptySupport :: Payload where
  "NewEmptySupport = \<lparr>Label = 0, Data = []\<rparr>"

text \<open>
  The struct \<open>param\<close>. A \<open>mat.Matrix\<close> or \<open>*Payload\<close> that may be nil is an
  option. The mutex \<open>mu\<close> has no value in a sequential run; what each method does
  to it is modelled in the section on the lock. The field \<open>storage\<close> says whether the store reference is
  non-nil; the store it refers to is passed to the methods that write through.
\<close>

record param =
  name :: string
  pType :: ParamsType
  "value" :: "Dense option"
  grad :: "Dense option"
  payload :: "Payload option"
  hasGrad :: bool
  requiresGrad :: bool
  storage :: bool

text \<open>
  A \<open>ParamOption\<close> is a function on the unexported struct; the package has two
  constructors of options, \<open>RequiresGrad(value)\<close> and \<open>SetStorage(storage)\<close>.
\<close>

datatype ParamOption = RequiresGrad bool | SetStorage

fun applyOption :: "ParamOption \<Rightarrow> param \<Rightarrow> param" where
  "applyOption (RequiresGrad v) p = p\<lparr>requiresGrad := v\<rparr>"
| "applyOption SetStorage p = p\<lparr>storage := True\<rparr>"

definition NewParam :: "Dense option \<Rightarrow> ParamOption list \<Rightarrow> param" where
  "NewParam v opts =
     fold applyOption opts
       \<lparr>name = [], pType = Undefined, value = v, grad = None, payload = None,
        hasGrad = False, requiresGrad = True, storage = False\<rparr>"

definition SetName :: "string \<Rightarrow> param \<Rightarrow> param" where
  "SetName n r = r\<lparr>name := n\<rparr>"

definition SetType :: "ParamsType \<Rightarrow> param \<Rightarrow> param" where
  "SetType t r = r\<lparr>pType := t\<rparr>"

definition Value :: "param \<Rightarrow> Dense option" where
  "Value r = value r"

definition Grad :: "param \<Rightarrow> Dense option" where
  "Grad r = grad r"

definition HasGrad :: "param \<Rightarrow> bool" where
  "HasGrad r = hasGrad r"

definition SetRequiresGrad :: "bool \<Rightarrow> param \<Rightarrow> param" where
  "SetRequiresGrad v r = r\<lparr>requiresGrad := v\<rparr>"

definition GetPayload :: "param \<Rightarrow> Payload option" where
  "GetPayload r = payload r"

subsection \<open>The serializer\<close>

text \<open>
  The byte counts that the Go functions return beside the error are left out: no caller
  in the source reads them.
\<close>

record header =
  h_Label :: "64 word"
  h_Size :: "64 word"

definition marshalBinaryTo :: "header \<Rightarrow> byte list" where
  "marshalBinaryTo s = PutUint64 (h_Label s) @ PutUint64 (h_Size s)"

definition unmarshalBinaryFrom :: "byte list \<Rightarrow> error + (header \<times> byte list)" where
  "unmarshalBinaryFrom r =
     (case ReadFull 16 r of
        Inl e \<Rightarrow> Inl e
      | Inr (buf, r') \<Rightarrow> Inr (\<lparr>h_Label = Uint64 (take 8 buf), h_Size = Uint64 (drop 8 buf)\<rparr>, r'))"

text \<open>
  \<open>PayloadMarshalBinaryTo\<close> reads \<open>supp.Label\<close> first: on a nil \<open>supp\<close> this is a nil
  pointer dereference.
\<close>

definition PayloadMarshalBinaryTo :: "Payload option \<Rightarrow> error + byte list" where
  "PayloadMarshalBinaryTo supp =
     (case supp of
        None \<Rightarrow> Inl NilDereference
      | Some s \<Rightarrow>
          Inr (marshalBinaryTo \<lparr>h_Label = Label s, h_Size = word_of_nat (length (Data s))\<rparr>
               @ MarshalBinarySlice (Data s)))"

definition NewPayloadUnmarshalBinaryFrom :: "byte list \<Rightarrow> error + (Payload \<times> byte list)" where
  "NewPayloadUnmarshalBinaryFrom r =
     (case unmarshalBinaryFrom r of
        Inl e \<Rightarrow> Inl e
      | Inr (h, r') \<Rightarrow>
          if sint (h_Size h) < 0 then Inl MakeSliceRange
          else
            (case NewUnmarshalBinarySlice (unat (h_Size h)) r' of
               Inl e \<Rightarrow> Inl e
             | Inr (ds, r'') \<Rightarrow> Inr (\<lparr>Label = h_Label h, Data = ds\<rparr>, r'')))"

record paramData =
  pd_Value :: Dense
  pd_Payload :: "Payload option"

definition paramDataMarshalBinaryTo :: "paramData \<Rightarrow> error + byte list" where
  "paramDataMarshalBinaryTo d =
     (let vs = MarshalBinaryTo (pd_Value d)
      in case PayloadMarshalBinaryTo (pd_Payload d) of
           Inl e \<Rightarrow> Inl e
         | Inr bs \<Rightarrow> Inr (vs @ bs))"

definition paramDataUnmarshalBinaryFrom :: "byte list \<Rightarrow> error + (paramData \<times> byte list)" where
  "paramDataUnmarshalBinaryFrom r =
     (case NewUnmarshalBinaryFrom r of
        Inl e \<Rightarrow> Inl e
      | Inr (v, r') \<Rightarrow>
          (case NewPayloadUnmarshalBinaryFrom r' of
             Inl e \<Rightarrow> Inl e
           | Inr (supp, r'') \<Rightarrow> Inr (\<lparr>pd_Value = v, pd_Payload = Some supp\<rparr>, r'')))"

text \<open>
  \<open>Serialize\<close> asserts \<open>s.value.(*mat.Dense)\<close>, which panics on a nil value, and
  returns the bytes written. \<open>Deserialize\<close> assigns the value and the payload read.
\<close>

definition Serialize :: "param \<Rightarrow> error + byte list" where
  "Serialize s =
     (case value s of
        None \<Rightarrow> Inl TypeAssertion
      | Some v \<Rightarrow> paramDataMarshalBinaryTo \<lparr>pd_Value = v, pd_Payload = payload s\<rparr>)"

definition Deserialize :: "param \<Rightarrow> byte list \<Rightarrow> error + param" where
  "Deserialize s r =
     (case paramDataUnmarshalBinaryFrom r of
        Inl e \<Rightarrow> Inl e
      | Inr (d, r') \<Rightarrow> Inr (s\<lparr>value := Some (pd_Value d), payload := pd_Payload d\<rparr>))"

subsection \<open>The methods of a parameter\<close>

text \<open>
  A method that may write through takes the parameter and the store its \<open>storage\<close>
  field refers to, and returns both. \<open>updateStorage\<close> ends the process
  (\<open>log.Fatal\<close>) when the store returns an error; a panic inside \<open>Serialize\<close>
  propagates as it is.
\<close>

definition updateStorage :: "param \<times> KeyValueDB \<Rightarrow> error + (param \<times> KeyValueDB)" where
  "updateStorage s =
     (case s of (r, db) \<Rightarrow>
        if \<not> storage r then Inr (r, db)
        else
          (case Serialize r of
             Inl e \<Rightarrow> Inl e
           | Inr buf \<Rightarrow>
               (case Put db (name r) buf of
                  Inl e \<Rightarrow> Inl Fatal
                | Inr db' \<Rightarrow> Inr (r, db'))))"

definition ReplaceValue :: "Dense option \<Rightarrow> param \<times> KeyValueDB \<Rightarrow> error + (param \<times> KeyValueDB)" where
  "ReplaceValue v s =
     (case s of (r, db) \<Rightarrow>
        let r' = r\<lparr>value := v, payload := None\<rparr>
        in if storage r' then updateStorage (r', db) else Inr (r', db))"

definition PropagateGrad :: "(float64 \<Rightarrow> float64 \<Rightarrow> float64) \<Rightarrow> Dense \<Rightarrow> param \<Rightarrow> error + param" where
  "PropagateGrad fadd g r =
     (if \<not> requiresGrad r then Inr r
      else
        (case (case grad r of
                 Some g0 \<Rightarrow> Inr g0
               | None \<Rightarrow>
                   (case value r of
                      None \<Rightarrow> Inl NilDereference
                    | Some v \<Rightarrow> Inr (GetEmptyDenseWorkspace (Rows v) (Columns v)))) of
           Inl e \<Rightarrow> Inl e
         | Inr g0 \<Rightarrow>
             (case AddInPlace fadd g0 g of
                Inl e \<Rightarrow> Inl e
              | Inr g1 \<Rightarrow> Inr (r\<lparr>grad := Some g1, hasGrad := True\<rparr>))))"

definition ZeroGrad :: "param \<Rightarrow> param" where
  "ZeroGrad r = (if grad r = None then r else r\<lparr>grad := None, hasGrad := False\<rparr>)"

definition ApplyDelta :: "(float64 \<Rightarrow> float64 \<Rightarrow> float64) \<Rightarrow> Dense \<Rightarrow> param \<times> KeyValueDB \<Rightarrow> error + (param \<times> KeyValueDB)" where
  "ApplyDelta fsub delta s =
     (case s of (r, db) \<Rightarrow>
        (case Value r of
           None \<Rightarrow> Inl NilDereference
         | Some v \<Rightarrow>
             (case SubInPlace fsub v delta of
                Inl e \<Rightarrow> Inl e
              | Inr v' \<Rightarrow>
                  let r' = r\<lparr>value := Some v'\<rparr>
                  in if storage r' then updateStorage (r', db) else Inr (r', db))))"

definition SetPayload :: "Payload option \<Rightarrow> param \<times> KeyValueDB \<Rightarrow> error + (param \<times> KeyValueDB)" where
  "SetPayload pl s =
     (case s of (r, db) \<Rightarrow>
        let r' = r\<lparr>payload := pl\<rparr>
        in if storage r' then updateStorage (r', db) else Inr (r', db))"

definition ClearPayload :: "param \<times> KeyValueDB \<Rightarrow> error + (param \<times> KeyValueDB)" where
  "ClearPayload s =
     (case s of (r, db) \<Rightarrow>
        let r' = r\<lparr>payload := None\<rparr>
        in if storage r' then updateStorage (r', db) else Inr (r', db))"

text \<open>
  \<open>UnmarshalBinary\<close> assigns the value it read even when the read failed (then nil)
  and returns the error.
\<close>

definition UnmarshalBinary :: "byte list \<Rightarrow> param \<Rightarrow> param \<times> error option" where
  "UnmarshalBinary dat r =
     (case NewUnmarshalBinaryFrom dat of
        Inl e \<Rightarrow> (r\<lparr>value := None\<rparr>, Some e)
      | Inr (v, rest) \<Rightarrow> (r\<lparr>value := Some v\<rparr>, None))"

text \<open>
  The state-changing methods of the interface \<open>Param\<close> and of \<open>ParamSerializer\<close>
  and the reads \<open>Value()\<close>, \<open>Grad()\<close>, \<open>Payload()\<close> as calls, and a run of
  calls on one parameter and its store. A read leaves the state as it is. A call that
  panics or ends the process ends the run.
\<close>

datatype call =
    CSetName string
  | CSetType ParamsType
  | CValue
  | CReplaceValue "Dense option"
  | CGrad
  | CPropagateGrad Dense
  | CSetRequiresGrad bool
  | CZeroGrad
  | CApplyDelta Dense
  | CPayload
  | CSetPayload "Payload option"
  | CClearPayload
  | CUnmarshalBinary "byte list"
  | CDeserialize "byte list"

fun do_call :: "(float64 \<Rightarrow> float64 \<Rightarrow> float64) \<Rightarrow> (float64 \<Rightarrow> float64 \<Rightarrow> float64) \<Rightarrow>
    call \<Rightarrow> param \<times> KeyValueDB \<Rightarrow> error + (param \<times> KeyValueDB)" where
  "do_call fadd fsub (CSetName n) (r, db) = Inr (SetName n r, db)"
| "do_call fadd fsub (CSetType t) (r, db) = Inr (SetType t r, db)"
| "do_call fadd fsub CValue (r, db) = Inr (r, db)"
| "do_call fadd fsub (CReplaceValue v) (r, db) = ReplaceValue v (r, db)"
| "do_call fadd fsub CGrad (r, db) = Inr (r, db)"
| "do_call fadd fsub (CPropagateGrad g) (r, db) =
     (case PropagateGrad fadd g r of Inl e \<Rightarrow> Inl e | Inr r' \<Rightarrow> Inr (r', db))"
| "do_call fadd fsub (CSetRequiresGrad v) (r, db) = Inr (SetRequiresGrad v r, db)"
| "do_call fadd fsub CZeroGrad (r, db) = Inr (ZeroGrad r, db)"
| "do_call fadd fsub (CApplyDelta d) (r, db) = ApplyDelta fsub d (r, db)"
| "do_call fadd fsub CPayload (r, db) = Inr (r, db)"
| "do_call fadd fsub (CSetPayload pl) (r, db) = SetPayload pl (r, db)"
| "do_call fadd fsub CClearPayload (r, db) = ClearPayload (r, db)"
| "do_call fadd fsub (CUnmarshalBinary dat) (r, db) = Inr (fst (UnmarshalBinary dat r), db)"
| "do_call fadd fsub (CDeserialize dat) (r, db) =
     (case Deserialize r dat of
        Inl e \<Rightarrow> if e = UnexpectedEOF then Inr (r, db) else Inl e
      | Inr r' \<Rightarrow> Inr (r', db))"

fun run :: "(float64 \<Rightarrow> float64 \<Rightarrow> float64) \<Rightarrow> (float64 \<Rightarrow> float64 \<Rightarrow> float64) \<Rightarrow>
    call list \<Rightarrow> param \<times> KeyValueDB \<Rightarrow> error + (param \<times> KeyValueDB)" where
  "run fadd fsub [] s = Inr s"
| "run fadd fsub (c # cs) s =
     (case do_call fadd fsub c s of Inl e \<Rightarrow> Inl e | Inr s' \<Rightarrow> run fadd fsub cs s')"


text \<open>
  A payload as Go can hold it: the length of a slice fits a non-negative \<open>int\<close>, and
  every matrix has the shape invariant.
\<close>

definition wf_Payload :: "Payload \<Rightarrow> bool" where
  "wf_Payload s \<longleftrightarrow> length (Data s) < 2 ^ 63 \<and> list_all wf_Dense (Data s)"

section \<open>The Reshape function (package fn)\<close>

text \<open>
  The operand \<open>x\<close> of the function is a parameter (\<open>param\<close> implements
  \<open>fn.Operand\<close>). \<open>Backward\<close> changes the operand through \<open>PropagateGrad\<close>, so it
  returns the function with the operand updated.
\<close>

record Reshape =
  r_x :: param
  r_rows :: goint
  r_cols :: goint

definition NewReshape :: "param \<Rightarrow> goint \<Rightarrow> goint \<Rightarrow> Reshape" where
  "NewReshape x r c = \<lparr>r_x = x, r_rows = r, r_cols = c\<rparr>"

definition Forward :: "Reshape \<Rightarrow> error + Dense" where
  "Forward r =
     (case Value (r_x r) of
        None \<Rightarrow> Inl NilDereference
      | Some v \<Rightarrow>
          if Size_mat v \<noteq> r_rows r * r_cols r then Inl SizeMismatch
          else Reshape_mat v (r_rows r) (r_cols r))"

definition Backward :: "(float64 \<Rightarrow> float64 \<Rightarrow> float64) \<Rightarrow> Dense \<Rightarrow> Reshape \<Rightarrow> error + Reshape" where
  "Backward fadd gy r =
     (if Columns gy \<noteq> r_cols r \<and> Rows gy \<noteq> r_rows r then Inl ShapeError
      else if requiresGrad (r_x r) then
        (case Value (r_x r) of
           None \<Rightarrow> Inl NilDereference
         | Some v \<Rightarrow>
             (case Reshape_mat gy (Rows v) (Columns v) of
                Inl e \<Rightarrow> Inl e
              | Inr gx \<Rightarrow>
                  (case PropagateGrad fadd gx (r_x r) of
                     Inl e \<Rightarrow> Inl e
                   | Inr x' \<Rightarrow> Inr (r\<lparr>r_x := x'\<rparr>))))
      else Inr r)"

section \<open>The embeddings model (package embeddings)\<close>

text \<open>
  The struct \<open>Model\<close> with the fields of its embedded \<open>Config\<close>. The working set
  \<open>UsedEmbeddings\<close> is a Go map. \<open>strings.ToLower\<close> belongs to Go's standard
  library and is the argument \<open>toLower\<close> of the functions that call it.
\<close>

record Model =
  Size :: goint
  UseZeroEmbedding :: bool
  DBPath :: string
  ReadOnly :: bool
  ForceNewDB :: bool
  m_storage :: KeyValueDB
  UsedEmbeddings :: "string \<rightharpoonup> param"
  ZeroEmbedding :: param

text \<open>
  \<open>if err != nil { log.Fatal(err) }\<close>: a returned error ends the process; a runtime
  panic raised inside the call passes through unchanged.
\<close>

definition logFatal :: "error \<Rightarrow> error" where
  "logFatal e = (if e = UnexpectedEOF \<or> e = StorageError then Fatal else e)"

definition ClearUsedEmbeddings :: "Model \<Rightarrow> error + Model" where
  "ClearUsedEmbeddings m =
     (if \<exists>embedding \<in> ran (UsedEmbeddings m). Value embedding = None then Inl TypeAssertion
      else Inr (m\<lparr>UsedEmbeddings := Map.empty\<rparr>))"

definition SetEmbedding :: "Model \<Rightarrow> string \<Rightarrow> Dense \<Rightarrow> error + Model" where
  "SetEmbedding m word v =
     (if ReadOnly m then Inl Fatal
      else
        (case SetPayload (Some NewEmptySupport) (NewParam (Some v) [], m_storage m) of
           Inl e \<Rightarrow> Inl e
         | Inr (embedding, db) \<Rightarrow>
             (case Serialize embedding of
                Inl e \<Rightarrow> Inl (logFatal e)
              | Inr buf \<Rightarrow>
                  (case Put db word buf of
                     Inl e \<Rightarrow> Inl (logFatal e)
                   | Inr db' \<Rightarrow> Inr (m\<lparr>m_storage := db'\<rparr>)))))"

definition getEmbedding :: "Model \<Rightarrow> string \<Rightarrow> error + (param option \<times> Model)" where
  "getEmbedding m word =
     (case UsedEmbeddings m word of
        Some embedding \<Rightarrow> Inr (Some embedding, m)
      | None \<Rightarrow>
          (case Get (m_storage m) word of
             Inl e \<Rightarrow> Inl (logFatal e)
           | Inr None \<Rightarrow> Inr (None, m)
           | Inr (Some dat) \<Rightarrow>
               (case Deserialize (NewParam None [SetStorage]) dat of
                  Inl e \<Rightarrow> Inl (logFatal e)
                | Inr e0 \<Rightarrow>
                    let e1 = (if ReadOnly m then applyOption (RequiresGrad False) e0 else e0);
                        embedding = SetName word e1
                    in Inr (Some embedding,
                            m\<lparr>UsedEmbeddings := (UsedEmbeddings m)(word \<mapsto> embedding)\<rparr>))))"

definition GetEmbedding :: "(string \<Rightarrow> string) \<Rightarrow> Model \<Rightarrow> string \<Rightarrow> error + (param option \<times> Model)" where
  "GetEmbedding toLower m word =
     (case getEmbedding m word of
        Inl e \<Rightarrow> Inl e
      | Inr (Some found, m') \<Rightarrow> Inr (Some found, m')
      | Inr (None, m') \<Rightarrow>
          (case getEmbedding m' (toLower word) of
             Inl e \<Rightarrow> Inl e
           | Inr (Some found, m'') \<Rightarrow> Inr (Some found, m'')
           | Inr (None, m'') \<Rightarrow> Inr (None, m'')))"

subsection \<open>The processor\<close>

text \<open>
  Modelled from the spec: package \<open>ag\<close> is not among the source files. A graph is an
  ordered, append-only collection of nodes, and \<open>NewWrap\<close> adapts a parameter as a new
  node of the graph (spec 3 and 4.3). A node is known by its position in the graph, so
  two nodes are the same instance exactly when their positions are equal.
\<close>

type_synonym Node = nat

record Graph =
  nodes :: "param list"

definition NewWrap :: "Graph \<Rightarrow> param \<Rightarrow> Node \<times> Graph" where
  "NewWrap g p = (length (nodes g), g\<lparr>nodes := nodes g @ [p]\<rparr>)"

record Processor =
  p_Model :: Model
  p_Graph :: Graph
  zeroEmbedding :: "Node option"

definition NewProc :: "Model \<Rightarrow> Graph \<Rightarrow> Processor" where
  "NewProc m g =
     (if UseZeroEmbedding m then
        (case NewWrap g (ZeroEmbedding m) of
           (n, g') \<Rightarrow> \<lparr>p_Model = m, p_Graph = g', zeroEmbedding = Some n\<rparr>)
      else \<lparr>p_Model = m, p_Graph = g, zeroEmbedding = None\<rparr>)"

definition Processor_getEmbedding :: "(string \<Rightarrow> string) \<Rightarrow> Processor \<Rightarrow> string \<Rightarrow> error + (Node option \<times> Processor)" where
  "Processor_getEmbedding toLower p words =
     (case GetEmbedding toLower (p_Model p) words of
        Inl e \<Rightarrow> Inl e
      | Inr (None, m') \<Rightarrow> Inr (zeroEmbedding p, p\<lparr>p_Model := m'\<rparr>)
      | Inr (Some par, m') \<Rightarrow>
          (case NewWrap (p_Graph p) par of
             (n, g') \<Rightarrow> Inr (Some n, p\<lparr>p_Model := m', p_Graph := g'\<rparr>)))"

text \<open>
  The loop of \<open>Encode\<close> over \<open>words\<close> from position \<open>i\<close>, on the slice
  \<open>encoding\<close> and the map \<open>cache\<close>. The cache also keeps a nil node.
\<close>

fun Encode_loop :: "(string \<Rightarrow> string) \<Rightarrow> nat \<Rightarrow> string list \<Rightarrow>
    Node option list \<times> (string \<rightharpoonup> Node option) \<times> Processor \<Rightarrow>
    error + (Node option list \<times> (string \<rightharpoonup> Node option) \<times> Processor)" where
  "Encode_loop toLower i [] s = Inr s"
| "Encode_loop toLower i (word # ws) (encoding, cache, p) =
     (case cache word of
        Some item \<Rightarrow> Encode_loop toLower (Suc i) ws (encoding[i := item], cache, p)
      | None \<Rightarrow>
          (case Processor_getEmbedding toLower p word of
             Inl e \<Rightarrow> Inl e
           | Inr (embedding, p') \<Rightarrow>
               Encode_loop toLower (Suc i) ws
                 (encoding[i := embedding], cache(word \<mapsto> embedding), p')))"

definition Encode :: "(string \<Rightarrow> string) \<Rightarrow> Processor \<Rightarrow> string list \<Rightarrow> error + (Node option list \<times> Processor)" where
  "Encode toLower p words =
     (case Encode_loop toLower 0 words (replicate (length words) None, Map.empty, p) of
        Inl e \<Rightarrow> Inl e
      | Inr (encoding, cache, p') \<Rightarrow> Inr (encoding, p'))"

subsection \<open>The lookups of one call to Encode, in the spec's words\<close>

text \<open>
  The spec asks for one embedding lookup and one graph wrap per distinct word of a call.
  \<open>fresh seen ws\<close> lists the words of \<open>ws\<close> that are not in \<open>seen\<close>, each once, in
  the order of their first occurrence; \<open>lookup_each\<close> runs the processor's lookup once
  for each word of a list and records the node in the cache. They are compared with the
  loop of \<open>Encode\<close> below.
\<close>

fun fresh :: "string set \<Rightarrow> string list \<Rightarrow> string list" where
  "fresh seen [] = []"
| "fresh seen (w # ws) = (if w \<in> seen then fresh seen ws else w # fresh (insert w seen) ws)"

fun lookup_each :: "(string \<Rightarrow> string) \<Rightarrow> string list \<Rightarrow>
    (string \<rightharpoonup> Node option) \<times> Processor \<Rightarrow> error + ((string \<rightharpoonup> Node option) \<times> Processor)" where
  "lookup_each toLower [] s = Inr s"
| "lookup_each toLower (w # ws) (cache, p) =
     (case Processor_getEmbedding toLower p w of
        Inl e \<Rightarrow> Inl e
      | Inr (embedding, p') \<Rightarrow> lookup_each toLower ws (cache(w \<mapsto> embedding), p'))"

section \<open>The lock of a parameter\<close>

text \<open>
  What a method does to the mutex \<open>mu\<close> and to the fields of the struct, in program
  order, on the branch that the state of the parameter selects: \<open>r.mu.Lock()\<close>, the
  deferred \<open>r.mu.Unlock()\<close> (which also runs when the method panics), and each read
  and write of a field. A change made in place to the matrix a field holds
  (\<open>AddInPlace\<close>, \<open>SubInPlace\<close>) is a write of that field.
\<close>

datatype field =
  F_name | F_pType | F_value | F_grad | F_payload | F_hasGrad | F_requiresGrad | F_storage

datatype event = Lock | Unlock | Read field | Write field

definition Serialize_events :: "param \<Rightarrow> event list" where
  "Serialize_events s =
     (if value s = None then [Read F_value] else [Read F_value, Read F_payload])"

definition updateStorage_events :: "param \<Rightarrow> event list" where
  "updateStorage_events r =
     (if \<not> storage r then [Read F_storage]
      else Read F_storage # Serialize_events r
           @ (if value r = None \<or> payload r = None then [] else [Read F_storage, Read F_name]))"

definition AddInPlace_events :: "Dense \<Rightarrow> Dense \<Rightarrow> event list" where
  "AddInPlace_events g0 g =
     Read F_grad # (if SameDims g0 g then [Write F_grad, Write F_hasGrad] else [])"

fun events :: "call \<Rightarrow> param \<Rightarrow> event list" where
  "events (CSetName n) r = [Write F_name]"
| "events (CSetType t) r = [Write F_pType]"
| "events CValue r = [Read F_value]"
| "events (CReplaceValue v) r =
     [Lock, Write F_value, Write F_payload, Read F_storage]
     @ (if storage r then updateStorage_events (r\<lparr>value := v, payload := None\<rparr>) else [])
     @ [Unlock]"
| "events CGrad r = [Read F_grad]"
| "events (CPropagateGrad g) r =
     (if \<not> requiresGrad r then [Read F_requiresGrad]
      else [Read F_requiresGrad, Lock, Read F_grad]
           @ (case grad r of
                Some g0 \<Rightarrow> AddInPlace_events g0 g
              | None \<Rightarrow>
                  (case value r of
                     None \<Rightarrow> [Read F_value]
                   | Some v \<Rightarrow>
                       [Read F_value, Write F_grad]
                       @ AddInPlace_events (GetEmptyDenseWorkspace (Rows v) (Columns v)) g))
           @ [Unlock])"
| "events (CSetRequiresGrad v) r = [Write F_requiresGrad]"
| "events CZeroGrad r =
     (if grad r = None then [Read F_grad]
      else [Read F_grad, Lock, Read F_grad, Write F_grad, Write F_hasGrad, Unlock])"
| "events (CApplyDelta delta) r =
     [Lock, Read F_value]
     @ (case Value r of
          None \<Rightarrow> []
        | Some v \<Rightarrow>
            if SameDims v delta then
              [Write F_value, Read F_storage]
              @ (if storage r then updateStorage_events r else [])
            else [])
     @ [Unlock]"
| "events CPayload r = [Lock, Read F_payload, Unlock]"
| "events (CSetPayload pl) r =
     [Lock, Write F_payload, Read F_storage]
     @ (if storage r then updateStorage_events (r\<lparr>payload := pl\<rparr>) else [])
     @ [Unlock]"
| "events CClearPayload r =
     [Lock, Write F_payload, Read F_storage]
     @ (if storage r then updateStorage_events (r\<lparr>payload := None\<rparr>) else [])
     @ [Unlock]"
| "events (CUnmarshalBinary dat) r = [Write F_value]"
| "events (CDeserialize dat) r =
     (case paramDataUnmarshalBinaryFrom dat of
        Inl e \<Rightarrow> []
      | Inr d \<Rightarrow> [Write F_value, Write F_payload])"

text \<open>
  The fields the lock is for: the value, the gradient and the payload. An event touches
  them when it reads or writes one of the three.
\<close>

fun touches :: "event \<Rightarrow> bool" where
  "touches (Read f) = (f = F_value \<or> f = F_grad \<or> f = F_payload)"
| "touches (Write f) = (f = F_value \<or> f = F_grad \<or> f = F_payload)"
| "touches Lock = False"
| "touches Unlock = False"

text \<open>
  \<open>guarded held es\<close>: in the events \<open>es\<close>, run from a state where the method holds
  the lock or not (\<open>held\<close>), the lock is taken only when not held, released only when
  held and released at the end, and every event that touches the three fields runs while
  the lock is held.
\<close>

fun guarded :: "bool \<Rightarrow> event list \<Rightarrow> bool" where
  "guarded held [] = (\<not> held)"
| "guarded held (Lock # es) = (\<not> held \<and> guarded True es)"
| "guarded held (Unlock # es) = (held \<and> guarded False es)"
| "guarded held (Read f # es) = ((touches (Read f) \<longrightarrow> held) \<and> guarded held es)"
| "guarded held (Write f # es) = ((touches (Write f) \<longrightarrow> held) \<and> guarded held es)"

text \<open>
  Goroutines that run methods on one parameter: each thread is the list of events it has
  still to run, and the mutex is the number of the thread that holds it, if any. A step
  of thread \<open>i\<close> runs its next event: \<open>Lock\<close> only when the mutex is free (otherwise
  the thread is blocked and there is no step), \<open>Unlock\<close> only on a locked mutex. A
  schedule is the list of the threads that step. \<open>races\<close> says whether, along a
  schedule, some thread touches the three fields while it does not hold the mutex.
\<close>

fun step :: "nat \<Rightarrow> nat option \<times> event list list \<Rightarrow> (nat option \<times> event list list) option" where
  "step i (holder, ts) =
     (if i < length ts then
        (case ts ! i of
           [] \<Rightarrow> None
         | Lock # es \<Rightarrow> if holder = None then Some (Some i, ts[i := es]) else None
         | Unlock # es \<Rightarrow> if holder = None then None else Some (None, ts[i := es])
         | Read f # es \<Rightarrow> Some (holder, ts[i := es])
         | Write f # es \<Rightarrow> Some (holder, ts[i := es]))
      else None)"

fun unguarded_access :: "nat \<Rightarrow> nat option \<times> event list list \<Rightarrow> bool" where
  "unguarded_access i (holder, ts) =
     (i < length ts \<and> (case ts ! i of [] \<Rightarrow> False | e # es \<Rightarrow> touches e \<and> holder \<noteq> Some i))"

fun races :: "nat list \<Rightarrow> nat option \<times> event list list \<Rightarrow> bool" where
  "races [] c = False"
| "races (i # sched) c =
     (unguarded_access i c \<or> (case step i c of None \<Rightarrow> False | Some c' \<Rightarrow> races sched c'))"

section \<open>The binary format: reading back what was written\<close>

lemma length_PutUint64: "length (PutUint64 v) = 8"
  by (simp add: PutUint64_def)

lemma Uint64_PutUint64: "Uint64 (PutUint64 v) = v"
proof (rule bit_word_eqI)
  fix n assume n: "n < LENGTH(64)"
  then have d: "n div 8 < 8" by simp
  have "bit (Uint64 (PutUint64 v)) n \<longleftrightarrow> bit (PutUint64 v ! (n div 8)) (n mod 8)"
    using n d bit_horner_sum_uint_exp_iff [where 'a = 8, of "PutUint64 v" n]
    by (simp add: Uint64_def bit_word_of_int_iff length_PutUint64)
  also have "\<dots> \<longleftrightarrow> bit v (8 * (n div 8) + n mod 8)"
    using d by (simp add: PutUint64_def bit_ucast_iff bit_drop_bit_eq del: upt.simps)
  also have "8 * (n div 8) + n mod 8 = n" by simp
  finally show "bit (Uint64 (PutUint64 v)) n = bit v n" .
qed

lemma ReadFull_append: "length a = n \<Longrightarrow> ReadFull n (a @ r) = Inr (a, r)"
  by (simp add: ReadFull_def)

lemma readFloats_concat:
  "readFloats (length vs) (concat (map PutUint64 vs) @ r) = Inr (vs, r)"
  by (induction vs) (simp_all add: ReadFull_append length_PutUint64 Uint64_PutUint64)

lemma NewUnmarshalBinaryFrom_MarshalBinaryTo:
  assumes "wf_Dense d"
  shows "NewUnmarshalBinaryFrom (MarshalBinaryTo d @ r) = Inr (d, r)"
proof -
  have "readFloats (unat (rows d) * unat (cols d)) (concat (map PutUint64 (data d)) @ r)
      = Inr (data d, r)"
    using assms readFloats_concat [of "data d" r] by (simp add: wf_Dense_def)
  then show ?thesis
    by (simp add: NewUnmarshalBinaryFrom_def MarshalBinaryTo_def ReadFull_append
        length_PutUint64 Uint64_PutUint64)
qed

lemma NewUnmarshalBinarySlice_MarshalBinarySlice:
  "list_all wf_Dense ds \<Longrightarrow>
   NewUnmarshalBinarySlice (length ds) (MarshalBinarySlice ds @ r) = Inr (ds, r)"
proof (induction ds)
  case Nil
  then show ?case by (simp add: MarshalBinarySlice_def)
next
  case (Cons d ds)
  then have "NewUnmarshalBinarySlice (length ds) (MarshalBinarySlice ds @ r) = Inr (ds, r)"
    by simp
  moreover have "NewUnmarshalBinaryFrom (MarshalBinaryTo d @ MarshalBinarySlice ds @ r)
      = Inr (d, MarshalBinarySlice ds @ r)"
    using Cons.prems by (simp add: NewUnmarshalBinaryFrom_MarshalBinaryTo)
  ultimately show ?case
    by (simp add: MarshalBinarySlice_def)
qed

lemma unmarshalBinaryFrom_marshalBinaryTo:
  "unmarshalBinaryFrom (marshalBinaryTo h @ r) = Inr (h, r)"
proof -
  have "ReadFull 16 ((PutUint64 (h_Label h) @ PutUint64 (h_Size h)) @ r)
      = Inr (PutUint64 (h_Label h) @ PutUint64 (h_Size h), r)"
    by (rule ReadFull_append) (simp add: length_PutUint64)
  then show ?thesis
    by (simp add: unmarshalBinaryFrom_def marshalBinaryTo_def length_PutUint64 Uint64_PutUint64)
qed

lemma slice_length_word:
  assumes "n < 2 ^ 63"
  shows "unat (word_of_nat n :: 64 word) = n" and "\<not> sint (word_of_nat n :: 64 word) < 0"
proof -
  have "n < 2 ^ 64" using assms by simp
  then show "unat (word_of_nat n :: 64 word) = n"
    by (simp add: unat_of_nat)
  have "sint (word_of_nat n :: 64 word) = signed_take_bit 63 (int n)"
    by (simp add: signed_of_nat)
  also have "\<dots> = int n"
    using assms by (simp add: signed_take_bit_int_eq_self)
  finally show "\<not> sint (word_of_nat n :: 64 word) < 0" by simp
qed

lemma NewPayloadUnmarshalBinaryFrom_Marshal:
  assumes "wf_Payload s"
  shows "\<exists>bs. PayloadMarshalBinaryTo (Some s) = Inr bs \<and>
     (\<forall>r. NewPayloadUnmarshalBinaryFrom (bs @ r) = Inr (s, r))"
proof -
  let ?h = "\<lparr>h_Label = Label s, h_Size = word_of_nat (length (Data s))\<rparr>"
  from assms have len: "length (Data s) < 2 ^ 63" and wf: "list_all wf_Dense (Data s)"
    by (simp_all add: wf_Payload_def)
  have "NewPayloadUnmarshalBinaryFrom ((marshalBinaryTo ?h @ MarshalBinarySlice (Data s)) @ r)
      = Inr (s, r)" for r
    using slice_length_word [OF len] NewUnmarshalBinarySlice_MarshalBinarySlice [OF wf, of r]
    by (simp add: NewPayloadUnmarshalBinaryFrom_def unmarshalBinaryFrom_marshalBinaryTo)
  then show ?thesis
    by (simp add: PayloadMarshalBinaryTo_def)
qed

text \<open>
  With a payload present, what \<open>Serialize\<close> writes is read back by \<open>Deserialize\<close>
  as the same value and the same payload.
\<close>

lemma Deserialize_Serialize:
  assumes "value s = Some v" and "wf_Dense v" and "payload s = Some pl" and "wf_Payload pl"
  shows "\<exists>bs. Serialize s = Inr bs \<and>
     Deserialize q bs = Inr (q\<lparr>value := Some v, payload := Some pl\<rparr>)"
proof -
  from NewPayloadUnmarshalBinaryFrom_Marshal [OF assms(4)] obtain bs where
    m: "PayloadMarshalBinaryTo (Some pl) = Inr bs" and
    u: "NewPayloadUnmarshalBinaryFrom (bs @ []) = Inr (pl, [])"
    by blast
  have "Serialize s = Inr (MarshalBinaryTo v @ bs)"
    using assms(1,3) m by (simp add: Serialize_def paramDataMarshalBinaryTo_def)
  moreover have "Deserialize q (MarshalBinaryTo v @ bs)
      = Inr (q\<lparr>value := Some v, payload := Some pl\<rparr>)"
    using u NewUnmarshalBinaryFrom_MarshalBinaryTo [OF assms(2), of bs]
    by (simp add: Deserialize_def paramDataUnmarshalBinaryFrom_def)
  ultimately show ?thesis by simp
qed

text \<open>
  The empty payload of \<open>NewEmptySupport\<close> is written as the header \<open>{0, 0}\<close> with
  no matrix after it.
\<close>

lemma Serialize_empty_Payload:
  "value s = Some v \<Longrightarrow> payload s = Some NewEmptySupport \<Longrightarrow>
   Serialize s = Inr (MarshalBinaryTo v @ marshalBinaryTo \<lparr>h_Label = 0, h_Size = 0\<rparr>)"
  by (simp add: Serialize_def paramDataMarshalBinaryTo_def PayloadMarshalBinaryTo_def
      NewEmptySupport_def MarshalBinarySlice_def)

text \<open>With the payload absent, \<open>Serialize\<close> panics, whatever the value.\<close>

lemma Serialize_payload_None: "payload s = None \<Longrightarrow> value s = Some v \<Longrightarrow> Serialize s = Inl NilDereference"
  by (simp add: Serialize_def paramDataMarshalBinaryTo_def PayloadMarshalBinaryTo_def)

section \<open>Properties of a parameter\<close>

text \<open>
  C2 (the code at the failing input). A parameter with a value and no payload, as
  \<open>NewParam\<close> returns it, is not serialized as its value followed by the header
  \<open>{0, 0}\<close>: \<open>PayloadMarshalBinaryTo\<close> dereferences the nil payload and panics.
\<close>

theorem Serialize_absent_Payload_panics:
  "Serialize (NewParam (Some \<lparr>rows = 1, cols = 1, data = [1]\<rparr>) []) = Inl NilDereference"
  by (simp add: NewParam_def Serialize_def paramDataMarshalBinaryTo_def PayloadMarshalBinaryTo_def)

text \<open>
  C1 (as stated, refuted). \<open>ReplaceValue\<close> on a parameter that holds an accumulated
  gradient returns with the gradient still present.
\<close>

theorem ReplaceValue_keeps_Grad:
  "ReplaceValue (Some \<lparr>rows = 1, cols = 1, data = [2]\<rparr>)
     (\<lparr>name = [], pType = Undefined, value = Some \<lparr>rows = 1, cols = 1, data = [1]\<rparr>,
       grad = Some \<lparr>rows = 1, cols = 1, data = [7]\<rparr>, payload = Some NewEmptySupport,
       hasGrad = True, requiresGrad = True, storage = False\<rparr>,
      \<lparr>entries = Map.empty, broken = False\<rparr>)
   = Inr (\<lparr>name = [], pType = Undefined, value = Some \<lparr>rows = 1, cols = 1, data = [2]\<rparr>,
            grad = Some \<lparr>rows = 1, cols = 1, data = [7]\<rparr>, payload = None,
            hasGrad = True, requiresGrad = True, storage = False\<rparr>,
          \<lparr>entries = Map.empty, broken = False\<rparr>)"
  by (simp add: ReplaceValue_def)

text \<open>
  C1 (amended). For every parameter not backed by storage and every matrix \<open>v\<close>,
  \<open>ReplaceValue(v)\<close> returns with the value swapped to \<open>v\<close> and the payload cleared;
  the accumulated gradient and the has-gradient flag are as before, and so is the store.
\<close>

theorem ReplaceValue_swaps_Value_clears_Payload:
  assumes "\<not> storage r"
  shows "\<exists>r'. ReplaceValue v (r, db) = Inr (r', db) \<and> r' = r\<lparr>value := v, payload := None\<rparr>
    \<and> Value r' = v \<and> GetPayload r' = None \<and> Grad r' = Grad r \<and> HasGrad r' = HasGrad r"
  using assms by (simp add: ReplaceValue_def Value_def GetPayload_def Grad_def HasGrad_def)

theorem ReplaceValue_swaps_Value_clears_Payload_witness:
  "\<not> storage (NewParam (Some \<lparr>rows = 1, cols = 1, data = [1]\<rparr>) [])
   \<and> (\<exists>r'. ReplaceValue (Some \<lparr>rows = 1, cols = 1, data = [2]\<rparr>)
          (NewParam (Some \<lparr>rows = 1, cols = 1, data = [1]\<rparr>) [], \<lparr>entries = Map.empty, broken = False\<rparr>)
        = Inr (r', \<lparr>entries = Map.empty, broken = False\<rparr>)
      \<and> Value r' = Some \<lparr>rows = 1, cols = 1, data = [2]\<rparr> \<and> GetPayload r' = None)"
proof -
  have h: "\<not> storage (NewParam (Some \<lparr>rows = 1, cols = 1, data = [1]\<rparr>) [])"
    by (simp add: NewParam_def)
  from ReplaceValue_swaps_Value_clears_Payload [OF h,
      of "Some \<lparr>rows = 1, cols = 1, data = [2]\<rparr>" "\<lparr>entries = Map.empty, broken = False\<rparr>"]
  show ?thesis using h by blast
qed

















section \<open>Properties of Reshape\<close>

text \<open>\<open>Backward\<close> rejects a gradient when both its dimensions differ from the configured ones.\<close>

lemma Backward_ShapeError:
  "Columns gy \<noteq> r_cols r \<Longrightarrow> Rows gy \<noteq> r_rows r \<Longrightarrow> Backward fadd gy r = Inl ShapeError"
  by (simp add: Backward_def)

text \<open>
  C3 (the code at the failing input). A Reshape node configured as 2 x 3 over an operand
  of six elements that does not require gradients: \<open>Forward\<close> gives a 2 x 3 matrix, and
  \<open>Backward\<close> on a 2 x 5 gradient returns without any failure. The check joins the two
  comparisons with \<open>&&\<close>, so it fires only when both the rows and the columns differ;
  here the rows agree.
\<close>

theorem Backward_accepts_wrong_columns:
  "Forward (NewReshape (NewParam (Some \<lparr>rows = 1, cols = 6, data = [0, 0, 0, 0, 0, 0]\<rparr>)
              [RequiresGrad False]) 2 3)
     = Inr \<lparr>rows = 2, cols = 3, data = [0, 0, 0, 0, 0, 0]\<rparr>
   \<and> Backward (+) \<lparr>rows = 2, cols = 5, data = [0, 0, 0, 0, 0, 0, 0, 0, 0, 0]\<rparr>
       (NewReshape (NewParam (Some \<lparr>rows = 1, cols = 6, data = [0, 0, 0, 0, 0, 0]\<rparr>)
              [RequiresGrad False]) 2 3)
     = Inr (NewReshape (NewParam (Some \<lparr>rows = 1, cols = 6, data = [0, 0, 0, 0, 0, 0]\<rparr>)
              [RequiresGrad False]) 2 3)"
  by (simp add: Forward_def Backward_def NewReshape_def NewParam_def Value_def Size_mat_def
      Reshape_mat_def Rows_def Columns_def)

section \<open>Properties of the embeddings model\<close>

lemma getEmbedding_cached:
  "UsedEmbeddings m k = Some e \<Longrightarrow> getEmbedding m k = Inr (Some e, m)"
  by (simp add: getEmbedding_def)


lemma getEmbedding_stored:
  "UsedEmbeddings m k = None \<Longrightarrow> Get (m_storage m) k = Inr (Some dat) \<Longrightarrow>
   Deserialize (NewParam None [SetStorage]) dat = Inr e0 \<Longrightarrow>
   getEmbedding m k =
     Inr (Some (SetName k (if ReadOnly m then applyOption (RequiresGrad False) e0 else e0)),
          m\<lparr>UsedEmbeddings := (UsedEmbeddings m)
                (k \<mapsto> SetName k (if ReadOnly m then applyOption (RequiresGrad False) e0 else e0))\<rparr>)"
  by (simp add: getEmbedding_def Let_def)

lemma getEmbedding_None_iff:
  "getEmbedding m k = Inr (None, m') \<longleftrightarrow>
   UsedEmbeddings m k = None \<and> Get (m_storage m) k = Inr None \<and> m' = m"
  by (auto simp: getEmbedding_def Let_def split: option.splits sum.splits)

lemma GetEmbedding_unfold:
  "GetEmbedding toLower m w =
     (if getEmbedding m w = Inr (None, m) then getEmbedding m (toLower w) else getEmbedding m w)"
proof (cases "getEmbedding m w")
  case (Inl e)
  then show ?thesis by (simp add: GetEmbedding_def)
next
  case (Inr res)
  obtain found m' where res: "res = (found, m')" by (cases res)
  show ?thesis
  proof (cases found)
    case None
    with Inr res have "m' = m" by (simp add: getEmbedding_None_iff)
    with Inr res None show ?thesis
      by (auto simp: GetEmbedding_def split: sum.splits option.splits)
  next
    case (Some e)
    with Inr res show ?thesis by (simp add: GetEmbedding_def)
  qed
qed


lemma wf_Payload_NewEmptySupport: "wf_Payload NewEmptySupport"
  by (simp add: wf_Payload_def NewEmptySupport_def)

lemma SetEmbedding_Inr:
  assumes "SetEmbedding m w v = Inr m1"
  shows "\<not> ReadOnly m \<and> (\<exists>bs. Serialize ((NewParam (Some v) [])\<lparr>payload := Some NewEmptySupport\<rparr>) = Inr bs \<and>
     m1 = m\<lparr>m_storage := (m_storage m)\<lparr>entries := (entries (m_storage m))(w \<mapsto> bs)\<rparr>\<rparr>
     \<and> \<not> broken (m_storage m))"
proof -
  have st: "\<not> storage ((NewParam (Some v) [])\<lparr>payload := Some NewEmptySupport\<rparr>)"
    by (simp add: NewParam_def)
  from assms st show ?thesis
    by (auto simp: SetEmbedding_def SetPayload_def Let_def Put_def split: if_splits sum.splits)
qed

lemma SetEmbedding_then_stored:
  assumes set: "SetEmbedding m w v = Inr m1" and wf: "wf_Dense v"
  shows "\<exists>dat. Get (m_storage m1) w = Inr (Some dat) \<and>
     Deserialize (NewParam None [SetStorage]) dat
       = Inr ((NewParam None [SetStorage])\<lparr>value := Some v, payload := Some NewEmptySupport\<rparr>)"
proof -
  let ?s = "(NewParam (Some v) [])\<lparr>payload := Some NewEmptySupport\<rparr>"
  from SetEmbedding_Inr [OF set] obtain bs where
    ser: "Serialize ?s = Inr bs" and
    m1: "m1 = m\<lparr>m_storage := (m_storage m)\<lparr>entries := (entries (m_storage m))(w \<mapsto> bs)\<rparr>\<rparr>" and
    ok: "\<not> broken (m_storage m)"
    by blast
  have "value ?s = Some v" "payload ?s = Some NewEmptySupport"
    by (simp_all add: NewParam_def)
  from Deserialize_Serialize [OF this(1) wf this(2) wf_Payload_NewEmptySupport,
      of "NewParam None [SetStorage]"] ser
  have "Deserialize (NewParam None [SetStorage]) bs
      = Inr ((NewParam None [SetStorage])\<lparr>value := Some v, payload := Some NewEmptySupport\<rparr>)"
    by simp
  with m1 ok show ?thesis by (simp add: Get_def)
qed


lemma SetEmbedding_ok:
  assumes "\<not> ReadOnly m" and "\<not> broken (m_storage m)"
  shows "SetEmbedding m w v =
     Inr (m\<lparr>m_storage := (m_storage m)\<lparr>entries := (entries (m_storage m))
        (w \<mapsto> MarshalBinaryTo v @ marshalBinaryTo \<lparr>h_Label = 0, h_Size = 0\<rparr>)\<rparr>\<rparr>)"
  using assms
  by (simp add: SetEmbedding_def SetPayload_def NewParam_def Serialize_def Put_def
      paramDataMarshalBinaryTo_def PayloadMarshalBinaryTo_def NewEmptySupport_def
      MarshalBinarySlice_def)



lemma Deserialize_stored_bytes:
  assumes "wf_Dense v"
  shows "Deserialize q (MarshalBinaryTo v @ marshalBinaryTo \<lparr>h_Label = 0, h_Size = 0\<rparr>)
     = Inr (q\<lparr>value := Some v, payload := Some NewEmptySupport\<rparr>)"
proof -
  let ?s = "(NewParam (Some v) [])\<lparr>payload := Some NewEmptySupport\<rparr>"
  have "value ?s = Some v" "payload ?s = Some NewEmptySupport"
    by (simp_all add: NewParam_def)
  from Deserialize_Serialize [OF this(1) assms this(2) wf_Payload_NewEmptySupport, of q]
  show ?thesis
    by (simp add: NewParam_def Serialize_def paramDataMarshalBinaryTo_def
        PayloadMarshalBinaryTo_def NewEmptySupport_def MarshalBinarySlice_def)
qed

lemma getEmbedding_Some:
  assumes "getEmbedding m k = Inr (Some e, m')"
  shows "(UsedEmbeddings m k = Some e \<and> m' = m) \<or>
     (UsedEmbeddings m k = None \<and> m' = m\<lparr>UsedEmbeddings := (UsedEmbeddings m)(k \<mapsto> e)\<rparr>
      \<and> (ReadOnly m \<longrightarrow> \<not> requiresGrad e))"
  using assms
  by (auto simp: getEmbedding_def Let_def SetName_def split: option.splits sum.splits if_splits)

lemma getEmbedding_new_entries:
  assumes "getEmbedding m k = Inr (res, m')" and "ReadOnly m"
    and "UsedEmbeddings m' j \<noteq> UsedEmbeddings m j"
  shows "\<exists>e. UsedEmbeddings m' j = Some e \<and> \<not> requiresGrad e"
proof (cases res)
  case None
  with assms show ?thesis by (simp add: getEmbedding_None_iff)
next
  case (Some e)
  with assms(1) have "getEmbedding m k = Inr (Some e, m')" by simp
  from getEmbedding_Some [OF this] assms(2,3) show ?thesis
    by (auto split: if_splits)
qed

text \<open>
  C6. On a read-only model \<open>SetEmbedding\<close> ends the process (\<open>log.Fatal\<close>), and a
  parameter that \<open>GetEmbedding\<close> materializes from the store (one that was not in the
  working set before, and every entry the call adds to the working set) has
  \<open>requiresGrad\<close> false.
\<close>

theorem ReadOnly_store:
  "(ReadOnly m \<longrightarrow> SetEmbedding m w v = Inl Fatal)
   \<and> (\<forall>k e m'. ReadOnly m \<longrightarrow> UsedEmbeddings m k = None \<longrightarrow>
        getEmbedding m k = Inr (Some e, m') \<longrightarrow> \<not> requiresGrad e)
   \<and> (\<forall>e m'. ReadOnly m \<longrightarrow> UsedEmbeddings m w = None \<longrightarrow> UsedEmbeddings m (toLower w) = None \<longrightarrow>
        GetEmbedding toLower m w = Inr (Some e, m') \<longrightarrow> \<not> requiresGrad e)
   \<and> (\<forall>res m' k. ReadOnly m \<longrightarrow> GetEmbedding toLower m w = Inr (res, m') \<longrightarrow>
        UsedEmbeddings m' k \<noteq> UsedEmbeddings m k \<longrightarrow>
        (\<exists>e. UsedEmbeddings m' k = Some e \<and> \<not> requiresGrad e))"
proof (intro conjI allI impI)
  assume "ReadOnly m"
  then show "SetEmbedding m w v = Inl Fatal" by (simp add: SetEmbedding_def)
next
  fix k e m'
  assume "ReadOnly m" "UsedEmbeddings m k = None" "getEmbedding m k = Inr (Some e, m')"
  then show "\<not> requiresGrad e" using getEmbedding_Some [of m k e m'] by simp
next
  fix e m'
  assume ro: "ReadOnly m" and c1: "UsedEmbeddings m w = None"
    and c2: "UsedEmbeddings m (toLower w) = None"
    and g: "GetEmbedding toLower m w = Inr (Some e, m')"
  from g have "getEmbedding m w = Inr (Some e, m') \<or> getEmbedding m (toLower w) = Inr (Some e, m')"
    by (simp add: GetEmbedding_unfold split: if_splits)
  then show "\<not> requiresGrad e"
    using ro c1 c2 getEmbedding_Some [of m w e m'] getEmbedding_Some [of m "toLower w" e m']
    by auto
next
  fix res m' k
  assume ro: "ReadOnly m" and g: "GetEmbedding toLower m w = Inr (res, m')"
    and ne: "UsedEmbeddings m' k \<noteq> UsedEmbeddings m k"
  from g have "getEmbedding m w = Inr (res, m') \<or> getEmbedding m (toLower w) = Inr (res, m')"
    by (simp add: GetEmbedding_unfold split: if_splits)
  then show "\<exists>e. UsedEmbeddings m' k = Some e \<and> \<not> requiresGrad e"
    using getEmbedding_new_entries [OF _ ro ne] by blast
qed

theorem ReadOnly_store_witness:
  "ReadOnly \<lparr>Size = 1, UseZeroEmbedding = False, DBPath = [], ReadOnly = True, ForceNewDB = False,
       m_storage = \<lparr>entries = [''a'' \<mapsto> MarshalBinaryTo \<lparr>rows = 1, cols = 1, data = [5]\<rparr>
                      @ marshalBinaryTo \<lparr>h_Label = 0, h_Size = 0\<rparr>], broken = False\<rparr>,
       UsedEmbeddings = Map.empty, ZeroEmbedding = NewParam None [RequiresGrad False]\<rparr>
   \<and> SetEmbedding
      \<lparr>Size = 1, UseZeroEmbedding = False, DBPath = [], ReadOnly = True, ForceNewDB = False,
       m_storage = \<lparr>entries = [''a'' \<mapsto> MarshalBinaryTo \<lparr>rows = 1, cols = 1, data = [5]\<rparr>
                      @ marshalBinaryTo \<lparr>h_Label = 0, h_Size = 0\<rparr>], broken = False\<rparr>,
       UsedEmbeddings = Map.empty, ZeroEmbedding = NewParam None [RequiresGrad False]\<rparr>
      ''b'' \<lparr>rows = 1, cols = 1, data = [6]\<rparr> = Inl Fatal
   \<and> (\<exists>e m'. GetEmbedding (\<lambda>s. s)
      \<lparr>Size = 1, UseZeroEmbedding = False, DBPath = [], ReadOnly = True, ForceNewDB = False,
       m_storage = \<lparr>entries = [''a'' \<mapsto> MarshalBinaryTo \<lparr>rows = 1, cols = 1, data = [5]\<rparr>
                      @ marshalBinaryTo \<lparr>h_Label = 0, h_Size = 0\<rparr>], broken = False\<rparr>,
       UsedEmbeddings = Map.empty, ZeroEmbedding = NewParam None [RequiresGrad False]\<rparr>
      ''a'' = Inr (Some e, m')
      \<and> Value e = Some \<lparr>rows = 1, cols = 1, data = [5]\<rparr> \<and> \<not> requiresGrad e)"
proof -
  let ?v = "\<lparr>rows = 1, cols = 1, data = [5]\<rparr> :: Dense"
  let ?bs = "MarshalBinaryTo ?v @ marshalBinaryTo \<lparr>h_Label = 0, h_Size = 0\<rparr>"
  let ?m = "\<lparr>Size = 1, UseZeroEmbedding = False, DBPath = [], ReadOnly = True, ForceNewDB = False,
       m_storage = \<lparr>entries = [''a'' \<mapsto> ?bs], broken = False\<rparr>,
       UsedEmbeddings = Map.empty, ZeroEmbedding = NewParam None [RequiresGrad False]\<rparr>"
  let ?e = "(NewParam None [SetStorage])\<lparr>value := Some ?v, payload := Some NewEmptySupport,
       requiresGrad := False, name := ''a''\<rparr>"
  note t = ReadOnly_store [of ?m "''a''" _ "\<lambda>s. s"]
  have ro: "ReadOnly ?m" by simp
  have miss: "UsedEmbeddings ?m ''a'' = None" by simp
  have wf: "wf_Dense ?v" by (simp add: wf_Dense_def)
  have g: "getEmbedding ?m ''a'' = Inr (Some ?e, ?m\<lparr>UsedEmbeddings := [''a'' \<mapsto> ?e]\<rparr>)"
    by (simp add: getEmbedding_def Get_def Deserialize_stored_bytes [OF wf] SetName_def Let_def)
  then have G: "GetEmbedding (\<lambda>s. s) ?m ''a'' = Inr (Some ?e, ?m\<lparr>UsedEmbeddings := [''a'' \<mapsto> ?e]\<rparr>)"
    by (simp add: GetEmbedding_def)
  from t [THEN conjunct2, THEN conjunct2, THEN conjunct1, rule_format, OF ro miss miss G]
  have noGrad: "\<not> requiresGrad ?e" .
  have val: "Value ?e = Some ?v" by (simp add: Value_def)
  from ReadOnly_store [of ?m "''b''" "\<lparr>rows = 1, cols = 1, data = [6]\<rparr>" "\<lambda>s. s",
      THEN conjunct1, rule_format, OF ro]
  have fatal: "SetEmbedding ?m ''b'' \<lparr>rows = 1, cols = 1, data = [6]\<rparr> = Inl Fatal" .
  from ro fatal G val noGrad show ?thesis by blast
qed

text \<open>
  C10. \<open>SetEmbedding(word, value)\<close> changes the store at the key \<open>word\<close> only and
  leaves the working set as it was. A word that is cached is then still answered with the
  cached parameter; after \<open>ClearUsedEmbeddings\<close> the lookup materializes a parameter
  that holds the value set.
\<close>

theorem SetEmbedding_leaves_working_set:
  "SetEmbedding m w v = Inr m1 \<longrightarrow>
     UsedEmbeddings m1 = UsedEmbeddings m \<and> m1 = m\<lparr>m_storage := m_storage m1\<rparr>
     \<and> (\<forall>k. k \<noteq> w \<longrightarrow> entries (m_storage m1) k = entries (m_storage m) k)
     \<and> (\<forall>e. UsedEmbeddings m w = Some e \<longrightarrow> GetEmbedding toLower m1 w = Inr (Some e, m1))
     \<and> (\<forall>m2. wf_Dense v \<longrightarrow> ClearUsedEmbeddings m1 = Inr m2 \<longrightarrow>
          (\<exists>e m3. GetEmbedding toLower m2 w = Inr (Some e, m3) \<and> Value e = Some v))"
proof (intro impI conjI allI)
  assume set: "SetEmbedding m w v = Inr m1"
  from SetEmbedding_Inr [OF set] obtain bs where
    m1: "m1 = m\<lparr>m_storage := (m_storage m)\<lparr>entries := (entries (m_storage m))(w \<mapsto> bs)\<rparr>\<rparr>"
    by blast
  show used: "UsedEmbeddings m1 = UsedEmbeddings m" by (simp add: m1)
  show "m1 = m\<lparr>m_storage := m_storage m1\<rparr>" by (simp add: m1)
  show "entries (m_storage m1) k = entries (m_storage m) k" if "k \<noteq> w" for k
    using that by (simp add: m1)
  show "GetEmbedding toLower m1 w = Inr (Some e, m1)" if "UsedEmbeddings m w = Some e" for e
    using that used by (simp add: GetEmbedding_unfold getEmbedding_cached)
  show "\<exists>e m3. GetEmbedding toLower m2 w = Inr (Some e, m3) \<and> Value e = Some v"
    if wf: "wf_Dense v" and clr: "ClearUsedEmbeddings m1 = Inr m2" for m2
  proof -
    from clr have m2: "m2 = m1\<lparr>UsedEmbeddings := Map.empty\<rparr>"
      by (auto simp: ClearUsedEmbeddings_def split: if_splits)
    from SetEmbedding_then_stored [OF set wf] obtain dat where
      g: "Get (m_storage m2) w = Inr (Some dat)" and
      d: "Deserialize (NewParam None [SetStorage]) dat
         = Inr ((NewParam None [SetStorage])\<lparr>value := Some v, payload := Some NewEmptySupport\<rparr>)"
      by (auto simp: m2)
    have miss: "UsedEmbeddings m2 w = None" by (simp add: m2)
    from getEmbedding_stored [OF miss g d] show ?thesis
      by (simp add: GetEmbedding_unfold Value_def SetName_def)
  qed
qed

theorem SetEmbedding_leaves_working_set_witness:
  "SetEmbedding
      \<lparr>Size = 1, UseZeroEmbedding = False, DBPath = [], ReadOnly = False, ForceNewDB = False,
       m_storage = \<lparr>entries = Map.empty, broken = False\<rparr>,
       UsedEmbeddings = [''a'' \<mapsto> NewParam (Some \<lparr>rows = 1, cols = 1, data = [1]\<rparr>) [SetStorage]],
       ZeroEmbedding = NewParam None [RequiresGrad False]\<rparr>
      ''a'' \<lparr>rows = 1, cols = 1, data = [2]\<rparr>
    = Inr \<lparr>Size = 1, UseZeroEmbedding = False, DBPath = [], ReadOnly = False, ForceNewDB = False,
       m_storage = \<lparr>entries = [''a'' \<mapsto> MarshalBinaryTo \<lparr>rows = 1, cols = 1, data = [2]\<rparr>
                      @ marshalBinaryTo \<lparr>h_Label = 0, h_Size = 0\<rparr>], broken = False\<rparr>,
       UsedEmbeddings = [''a'' \<mapsto> NewParam (Some \<lparr>rows = 1, cols = 1, data = [1]\<rparr>) [SetStorage]],
       ZeroEmbedding = NewParam None [RequiresGrad False]\<rparr>
   \<and> GetEmbedding (\<lambda>s. s)
      \<lparr>Size = 1, UseZeroEmbedding = False, DBPath = [], ReadOnly = False, ForceNewDB = False,
       m_storage = \<lparr>entries = [''a'' \<mapsto> MarshalBinaryTo \<lparr>rows = 1, cols = 1, data = [2]\<rparr>
                      @ marshalBinaryTo \<lparr>h_Label = 0, h_Size = 0\<rparr>], broken = False\<rparr>,
       UsedEmbeddings = [''a'' \<mapsto> NewParam (Some \<lparr>rows = 1, cols = 1, data = [1]\<rparr>) [SetStorage]],
       ZeroEmbedding = NewParam None [RequiresGrad False]\<rparr>
      ''a''
    = Inr (Some (NewParam (Some \<lparr>rows = 1, cols = 1, data = [1]\<rparr>) [SetStorage]),
       \<lparr>Size = 1, UseZeroEmbedding = False, DBPath = [], ReadOnly = False, ForceNewDB = False,
       m_storage = \<lparr>entries = [''a'' \<mapsto> MarshalBinaryTo \<lparr>rows = 1, cols = 1, data = [2]\<rparr>
                      @ marshalBinaryTo \<lparr>h_Label = 0, h_Size = 0\<rparr>], broken = False\<rparr>,
       UsedEmbeddings = [''a'' \<mapsto> NewParam (Some \<lparr>rows = 1, cols = 1, data = [1]\<rparr>) [SetStorage]],
       ZeroEmbedding = NewParam None [RequiresGrad False]\<rparr>)
   \<and> Value (NewParam (Some \<lparr>rows = 1, cols = 1, data = [1]\<rparr>) [SetStorage])
       = Some \<lparr>rows = 1, cols = 1, data = [1]\<rparr>
   \<and> (\<exists>m2 e m3. ClearUsedEmbeddings
      \<lparr>Size = 1, UseZeroEmbedding = False, DBPath = [], ReadOnly = False, ForceNewDB = False,
       m_storage = \<lparr>entries = [''a'' \<mapsto> MarshalBinaryTo \<lparr>rows = 1, cols = 1, data = [2]\<rparr>
                      @ marshalBinaryTo \<lparr>h_Label = 0, h_Size = 0\<rparr>], broken = False\<rparr>,
       UsedEmbeddings = [''a'' \<mapsto> NewParam (Some \<lparr>rows = 1, cols = 1, data = [1]\<rparr>) [SetStorage]],
       ZeroEmbedding = NewParam None [RequiresGrad False]\<rparr> = Inr m2
      \<and> GetEmbedding (\<lambda>s. s) m2 ''a'' = Inr (Some e, m3)
      \<and> Value e = Some \<lparr>rows = 1, cols = 1, data = [2]\<rparr>)"
proof -
  let ?old = "NewParam (Some \<lparr>rows = 1, cols = 1, data = [1]\<rparr>) [SetStorage]"
  let ?v = "\<lparr>rows = 1, cols = 1, data = [2]\<rparr> :: Dense"
  let ?m = "\<lparr>Size = 1, UseZeroEmbedding = False, DBPath = [], ReadOnly = False, ForceNewDB = False,
       m_storage = \<lparr>entries = Map.empty, broken = False\<rparr>,
       UsedEmbeddings = [''a'' \<mapsto> ?old],
       ZeroEmbedding = NewParam None [RequiresGrad False]\<rparr>"
  let ?m1 = "\<lparr>Size = 1, UseZeroEmbedding = False, DBPath = [], ReadOnly = False, ForceNewDB = False,
       m_storage = \<lparr>entries = [''a'' \<mapsto> MarshalBinaryTo ?v
                      @ marshalBinaryTo \<lparr>h_Label = 0, h_Size = 0\<rparr>], broken = False\<rparr>,
       UsedEmbeddings = [''a'' \<mapsto> ?old],
       ZeroEmbedding = NewParam None [RequiresGrad False]\<rparr>"
  have set: "SetEmbedding ?m ''a'' ?v = Inr ?m1"
    by (simp add: SetEmbedding_ok)
  note t = SetEmbedding_leaves_working_set [of ?m "''a''" ?v ?m1 "\<lambda>s. s", THEN mp, OF set]
  have cached: "UsedEmbeddings ?m ''a'' = Some ?old" by simp
  from t [THEN conjunct2, THEN conjunct2, THEN conjunct2, THEN conjunct1, rule_format, OF cached]
  have stale: "GetEmbedding (\<lambda>s. s) ?m1 ''a'' = Inr (Some ?old, ?m1)" .
  have val: "Value ?old = Some \<lparr>rows = 1, cols = 1, data = [1]\<rparr>"
    by (simp add: Value_def NewParam_def)
  have wf: "wf_Dense ?v" by (simp add: wf_Dense_def)
  have clr: "ClearUsedEmbeddings ?m1 = Inr (?m1\<lparr>UsedEmbeddings := Map.empty\<rparr>)"
    by (simp add: ClearUsedEmbeddings_def val)
  from t [THEN conjunct2, THEN conjunct2, THEN conjunct2, THEN conjunct2, rule_format, OF wf clr]
  obtain e m3 where "GetEmbedding (\<lambda>s. s) (?m1\<lparr>UsedEmbeddings := Map.empty\<rparr>) ''a'' = Inr (Some e, m3)"
    and "Value e = Some ?v"
    by blast
  with set stale val clr show ?thesis by blast
qed

section \<open>Properties of Encode\<close>

lemma fresh_set: "set (fresh seen ws) = set ws - seen"
  by (induction ws arbitrary: seen) auto

lemma fresh_distinct: "distinct (fresh seen ws)"
  by (induction ws arbitrary: seen) (auto simp: fresh_set)

lemma fresh_length: "length (fresh {} ws) = card (set ws)"
  using distinct_card [OF fresh_distinct, of "{}" ws] by (simp add: fresh_set)

lemma Encode_loop_lookups:
  "(case Encode_loop toLower i ws (encoding, cache, p) of
      Inl e \<Rightarrow> Inl e
    | Inr (encoding', s) \<Rightarrow> Inr s)
   = lookup_each toLower (fresh (dom cache) ws) (cache, p)"
proof (induction ws arbitrary: i encoding cache p)
  case Nil
  show ?case by simp
next
  case (Cons w ws)
  show ?case
  proof (cases "cache w")
    case (Some item)
    then have "w \<in> dom cache" by auto
    with Some Cons.IH show ?thesis by simp
  next
    case None
    then have nd: "w \<notin> dom cache" by auto
    show ?thesis
    proof (cases "Processor_getEmbedding toLower p w")
      case (Inl e)
      with None nd show ?thesis by simp
    next
      case (Inr res)
      obtain embedding p' where res: "res = (embedding, p')" by (cases res)
      have d: "dom (cache(w \<mapsto> embedding)) = insert w (dom cache)" by simp
      have "(case Encode_loop toLower (Suc i) ws
            (encoding[i := embedding], cache(w \<mapsto> embedding), p') of
              Inl e \<Rightarrow> Inl e
            | Inr (encoding', s) \<Rightarrow> Inr s)
          = lookup_each toLower (fresh (insert w (dom cache)) ws) (cache(w \<mapsto> embedding), p')"
        using Cons.IH [of "Suc i" "encoding[i := embedding]" "cache(w \<mapsto> embedding)" p']
        by (simp only: d)
      with None nd Inr res show ?thesis by simp
    qed
  qed
qed

lemma Encode_loop_inv:
  assumes "Encode_loop toLower i ws (encoding, cache, p) = Inr (encoding', cache', p')"
    and "i + length ws \<le> length encoding"
  shows "length encoding' = length encoding
    \<and> (\<forall>j<i. encoding' ! j = encoding ! j)
    \<and> (\<forall>k item. cache k = Some item \<longrightarrow> cache' k = Some item)
    \<and> (\<forall>j<length ws. cache' (ws ! j) = Some (encoding' ! (i + j)))"
  using assms
proof (induction ws arbitrary: i encoding cache p)
  case Nil
  then show ?case by simp
next
  case (Cons w ws)
  show ?case
  proof (cases "cache w")
    case (Some item)
    with Cons.prems have run: "Encode_loop toLower (Suc i) ws (encoding[i := item], cache, p)
        = Inr (encoding', cache', p')"
      by simp
    from Cons.prems have len: "Suc i + length ws \<le> length (encoding[i := item])" by simp
    note ih = Cons.IH [OF run len]
    from ih have l: "length encoding' = length encoding" by simp
    from ih have early: "\<forall>j<Suc i. encoding' ! j = (encoding[i := item]) ! j" by blast
    from ih have keep: "\<forall>k it. cache k = Some it \<longrightarrow> cache' k = Some it" by blast
    from ih have later: "\<forall>j<length ws. cache' (ws ! j) = Some (encoding' ! (Suc i + j))" by blast
    from early Cons.prems have here: "encoding' ! i = item" by simp
    have a: "\<forall>j<i. encoding' ! j = encoding ! j"
      using early by (auto simp: nth_list_update)
    have b: "\<forall>j<length (w # ws). cache' ((w # ws) ! j) = Some (encoding' ! (i + j))"
    proof (intro allI impI)
      fix j assume "j < length (w # ws)"
      then show "cache' ((w # ws) ! j) = Some (encoding' ! (i + j))"
        using later keep Some here by (cases j) auto
    qed
    from l a keep b show ?thesis by blast
  next
    case None
    with Cons.prems obtain embedding p1 where
      look: "Processor_getEmbedding toLower p w = Inr (embedding, p1)" and
      run: "Encode_loop toLower (Suc i) ws (encoding[i := embedding], cache(w \<mapsto> embedding), p1)
        = Inr (encoding', cache', p')"
      by (auto split: sum.splits)
    from Cons.prems have len: "Suc i + length ws \<le> length (encoding[i := embedding])" by simp
    note ih = Cons.IH [OF run len]
    from ih have l: "length encoding' = length encoding" by simp
    from ih have early: "\<forall>j<Suc i. encoding' ! j = (encoding[i := embedding]) ! j" by blast
    from ih have keep1: "\<forall>k it. (cache(w \<mapsto> embedding)) k = Some it \<longrightarrow> cache' k = Some it"
      by blast
    from ih have later: "\<forall>j<length ws. cache' (ws ! j) = Some (encoding' ! (Suc i + j))" by blast
    from early Cons.prems have here: "encoding' ! i = embedding" by simp
    from keep1 have w: "cache' w = Some embedding" by simp
    have keep: "\<forall>k it. cache k = Some it \<longrightarrow> cache' k = Some it"
      using keep1 None by (metis fun_upd_apply option.distinct(1))
    have a: "\<forall>j<i. encoding' ! j = encoding ! j"
      using early by (auto simp: nth_list_update)
    have b: "\<forall>j<length (w # ws). cache' ((w # ws) ! j) = Some (encoding' ! (i + j))"
    proof (intro allI impI)
      fix j assume "j < length (w # ws)"
      then show "cache' ((w # ws) ! j) = Some (encoding' ! (i + j))"
        using later w here by (cases j) auto
    qed
    from l a keep b show ?thesis by blast
  qed
qed

lemma Processor_getEmbedding_nodes:
  "Processor_getEmbedding toLower p w = Inr (n, p') \<Longrightarrow>
   length (nodes (p_Graph p')) \<le> Suc (length (nodes (p_Graph p)))"
  by (auto simp: Processor_getEmbedding_def NewWrap_def split: sum.splits option.splits prod.splits)

lemma lookup_each_nodes:
  "lookup_each toLower ws (cache, p) = Inr (cache', p') \<Longrightarrow>
   length (nodes (p_Graph p')) \<le> length (nodes (p_Graph p)) + length ws"
proof (induction ws arbitrary: cache p)
  case Nil
  then show ?case by simp
next
  case (Cons w ws)
  from Cons.prems obtain n p1 where
    look: "Processor_getEmbedding toLower p w = Inr (n, p1)" and
    rest: "lookup_each toLower ws (cache(w \<mapsto> n), p1) = Inr (cache', p')"
    by (auto split: sum.splits)
  from Cons.IH [OF rest] Processor_getEmbedding_nodes [OF look] show ?case by simp
qed

text \<open>
  C7. When \<open>Encode(words)\<close> returns, the result has one node per input position, two
  positions that hold the same word hold the same node, and the processor ends in the
  state that one lookup per distinct word, in the order of first occurrence, leaves: the
  graph grows by at most one node per distinct word.
\<close>

theorem Encode_reuses_nodes:
  "Encode toLower p words = Inr (encoding, p') \<longrightarrow>
     length encoding = length words
     \<and> (\<forall>i<length words. \<forall>j<length words. words ! i = words ! j \<longrightarrow> encoding ! i = encoding ! j)
     \<and> (\<exists>cache. lookup_each toLower (fresh {} words) (Map.empty, p) = Inr (cache, p')
          \<and> (\<forall>i<length words. cache (words ! i) = Some (encoding ! i)))
     \<and> distinct (fresh {} words) \<and> set (fresh {} words) = set words
     \<and> length (nodes (p_Graph p')) \<le> length (nodes (p_Graph p)) + card (set words)"
proof
  assume enc: "Encode toLower p words = Inr (encoding, p')"
  then obtain cache where
    loop: "Encode_loop toLower 0 words (replicate (length words) None, Map.empty, p)
      = Inr (encoding, cache, p')"
    by (auto simp: Encode_def split: sum.splits)
  from Encode_loop_inv [OF loop] have
    len: "length encoding = length words" and
    cached: "\<forall>j<length words. cache (words ! j) = Some (encoding ! j)"
    by simp_all
  from Encode_loop_lookups [of toLower 0 words "replicate (length words) None" Map.empty p] loop
  have each: "lookup_each toLower (fresh {} words) (Map.empty, p) = Inr (cache, p')"
    by simp
  have same: "\<forall>i<length words. \<forall>j<length words. words ! i = words ! j \<longrightarrow> encoding ! i = encoding ! j"
  proof (intro allI impI)
    fix i j assume i: "i < length words" and j: "j < length words" and eq: "words ! i = words ! j"
    from cached i have "cache (words ! i) = Some (encoding ! i)" by blast
    moreover from cached j have "cache (words ! j) = Some (encoding ! j)" by blast
    ultimately show "encoding ! i = encoding ! j" using eq by simp
  qed
  from lookup_each_nodes [OF each]
  have nodes: "length (nodes (p_Graph p')) \<le> length (nodes (p_Graph p)) + card (set words)"
    by (simp add: fresh_length)
  from each cached have ex: "\<exists>cache. lookup_each toLower (fresh {} words) (Map.empty, p) = Inr (cache, p')
      \<and> (\<forall>i<length words. cache (words ! i) = Some (encoding ! i))"
    by blast
  have d: "distinct (fresh {} words)" by (rule fresh_distinct)
  have s: "set (fresh {} words) = set words" by (simp add: fresh_set)
  from len same ex d s nodes show
    "length encoding = length words
     \<and> (\<forall>i<length words. \<forall>j<length words. words ! i = words ! j \<longrightarrow> encoding ! i = encoding ! j)
     \<and> (\<exists>cache. lookup_each toLower (fresh {} words) (Map.empty, p) = Inr (cache, p')
          \<and> (\<forall>i<length words. cache (words ! i) = Some (encoding ! i)))
     \<and> distinct (fresh {} words) \<and> set (fresh {} words) = set words
     \<and> length (nodes (p_Graph p')) \<le> length (nodes (p_Graph p)) + card (set words)"
    by (intro conjI)
qed

theorem Encode_reuses_nodes_witness:
  "Encode (\<lambda>s. s)
     \<lparr>p_Model = \<lparr>Size = 1, UseZeroEmbedding = False, DBPath = [], ReadOnly = False,
         ForceNewDB = False, m_storage = \<lparr>entries = Map.empty, broken = False\<rparr>,
         UsedEmbeddings = [''the'' \<mapsto> NewParam (Some \<lparr>rows = 1, cols = 1, data = [1]\<rparr>) [],
                           ''cat'' \<mapsto> NewParam (Some \<lparr>rows = 1, cols = 1, data = [2]\<rparr>) []],
         ZeroEmbedding = NewParam None [RequiresGrad False]\<rparr>,
      p_Graph = \<lparr>nodes = []\<rparr>, zeroEmbedding = None\<rparr>
     [''the'', ''the'', ''cat'']
   = Inr ([Some 0, Some 0, Some 1],
     \<lparr>p_Model = \<lparr>Size = 1, UseZeroEmbedding = False, DBPath = [], ReadOnly = False,
         ForceNewDB = False, m_storage = \<lparr>entries = Map.empty, broken = False\<rparr>,
         UsedEmbeddings = [''the'' \<mapsto> NewParam (Some \<lparr>rows = 1, cols = 1, data = [1]\<rparr>) [],
                           ''cat'' \<mapsto> NewParam (Some \<lparr>rows = 1, cols = 1, data = [2]\<rparr>) []],
         ZeroEmbedding = NewParam None [RequiresGrad False]\<rparr>,
      p_Graph = \<lparr>nodes = [NewParam (Some \<lparr>rows = 1, cols = 1, data = [1]\<rparr>) [],
                          NewParam (Some \<lparr>rows = 1, cols = 1, data = [2]\<rparr>) []]\<rparr>,
      zeroEmbedding = None\<rparr>)
   \<and> length [Some (0::nat), Some 0, Some 1] = length [''the'', ''the'', ''cat'']
   \<and> [Some (0::nat), Some 0, Some 1] ! 0 = [Some 0, Some 0, Some 1] ! 1
   \<and> fresh {} [''the'', ''the'', ''cat''] = [''the'', ''cat'']"
proof -
  let ?pa = "NewParam (Some \<lparr>rows = 1, cols = 1, data = [1]\<rparr>) []"
  let ?pb = "NewParam (Some \<lparr>rows = 1, cols = 1, data = [2]\<rparr>) []"
  let ?m = "\<lparr>Size = 1, UseZeroEmbedding = False, DBPath = [], ReadOnly = False,
         ForceNewDB = False, m_storage = \<lparr>entries = Map.empty, broken = False\<rparr>,
         UsedEmbeddings = [''the'' \<mapsto> ?pa, ''cat'' \<mapsto> ?pb],
         ZeroEmbedding = NewParam None [RequiresGrad False]\<rparr>"
  let ?p = "\<lparr>p_Model = ?m, p_Graph = \<lparr>nodes = []\<rparr>, zeroEmbedding = None\<rparr>"
  let ?p' = "\<lparr>p_Model = ?m, p_Graph = \<lparr>nodes = [?pa, ?pb]\<rparr>, zeroEmbedding = None\<rparr>"
  let ?ws = "[''the'', ''the'', ''cat'']"
  let ?enc = "[Some (0::nat), Some 0, Some 1]"
  have run: "Encode (\<lambda>s. s) ?p ?ws = Inr (?enc, ?p')"
    by (simp add: Encode_def Processor_getEmbedding_def GetEmbedding_def getEmbedding_def
        NewWrap_def)
  note t = Encode_reuses_nodes [of "\<lambda>s. s" ?p ?ws ?enc ?p', THEN mp, OF run]
  from t have len: "length ?enc = length ?ws" by (rule conjunct1)
  from t [THEN conjunct2, THEN conjunct1, rule_format, of 0 1]
  have same: "?enc ! 0 = ?enc ! 1" by simp
  have fr: "fresh {} ?ws = [''the'', ''cat'']" by simp
  from run len same fr show ?thesis by (intro conjI)
qed

section \<open>Properties of the lock\<close>

text \<open>
  \<open>ReplaceValue\<close>, \<open>ApplyDelta\<close>, \<open>Payload\<close>, \<open>SetPayload\<close> and
  \<open>ClearPayload\<close> hold the lock for everything they do to the value, the gradient and
  the payload; and threads that run only such methods never touch the three fields
  without holding the mutex, whatever the schedule.
\<close>

lemma guarded_held_section:
  "list_all (\<lambda>e. e \<noteq> Lock \<and> e \<noteq> Unlock) es \<Longrightarrow> guarded True (es @ [Unlock])"
proof (induction es)
  case Nil
  show ?case by simp
next
  case (Cons e es)
  then show ?case by (cases e) simp_all
qed

lemma plain_updateStorage_events:
  "list_all (\<lambda>e. e \<noteq> Lock \<and> e \<noteq> Unlock) (updateStorage_events r)"
  by (simp add: updateStorage_events_def Serialize_events_def)

lemma guarded_methods:
  "guarded False (events (CReplaceValue v) r)"
  "guarded False (events (CApplyDelta d) r)"
  "guarded False (events CPayload r)"
  "guarded False (events (CSetPayload pl) r)"
  "guarded False (events CClearPayload r)"
proof -
  have u: "guarded True (updateStorage_events q @ [Unlock])" for q
    by (rule guarded_held_section) (rule plain_updateStorage_events)
  show "guarded False (events (CReplaceValue v) r)" using u by simp
  show "guarded False (events (CApplyDelta d) r)" using u by (simp split: option.splits)
  show "guarded False (events CPayload r)" by simp
  show "guarded False (events (CSetPayload pl) r)" using u by simp
  show "guarded False (events CClearPayload r)" using u by simp
qed

lemma step_keeps_guarded:
  assumes inv: "\<forall>j<length ts. guarded (holder = Some j) (ts ! j)"
    and st: "step i (holder, ts) = Some (holder', ts')"
  shows "length ts' = length ts \<and> (\<forall>j<length ts'. guarded (holder' = Some j) (ts' ! j))"
    and "\<not> unguarded_access i (holder, ts)"
proof -
  from st have i: "i < length ts" by (simp split: if_splits)
  from st i obtain e es where tsi: "ts ! i = e # es"
    by (cases "ts ! i") auto
  from inv i tsi have g: "guarded (holder = Some i) (e # es)" by auto
  show "\<not> unguarded_access i (holder, ts)"
    using g tsi i by (cases e) auto
  show "length ts' = length ts \<and> (\<forall>j<length ts'. guarded (holder' = Some j) (ts' ! j))"
  proof (cases e)
    case Lock
    with st i tsi have h: "holder = None" "holder' = Some i" "ts' = ts[i := es]"
      by (auto split: if_splits)
    with g Lock have ges: "guarded True es" by simp
    show ?thesis
    proof (intro conjI allI impI)
      show "length ts' = length ts" by (simp add: h)
      fix j assume j: "j < length ts'"
      show "guarded (holder' = Some j) (ts' ! j)"
      proof (cases "j = i")
        case True
        with ges h i show ?thesis by simp
      next
        case False
        with inv j h have "guarded False (ts ! j)" by auto
        with False h show ?thesis by auto
      qed
    qed
  next
    case Unlock
    with g have hi: "holder = Some i" and ges: "guarded False es" by auto
    with st i tsi Unlock have h: "holder' = None" "ts' = ts[i := es]"
      by (auto split: if_splits)
    show ?thesis
    proof (intro conjI allI impI)
      show "length ts' = length ts" by (simp add: h)
      fix j assume j: "j < length ts'"
      show "guarded (holder' = Some j) (ts' ! j)"
      proof (cases "j = i")
        case True
        with ges h i show ?thesis by simp
      next
        case False
        with inv j h hi have "guarded False (ts ! j)" by auto
        with False h show ?thesis by simp
      qed
    qed
  next
    case (Read f)
    with st i tsi have h: "holder' = holder" "ts' = ts[i := es]" by auto
    from g Read have ges: "guarded (holder = Some i) es" by simp
    show ?thesis
    proof (intro conjI allI impI)
      show "length ts' = length ts" by (simp add: h)
      fix j assume j: "j < length ts'"
      show "guarded (holder' = Some j) (ts' ! j)"
      proof (cases "j = i")
        case True
        with ges h i show ?thesis by simp
      next
        case False
        with inv j h have "guarded (holder = Some j) (ts ! j)" by auto
        with False h show ?thesis by simp
      qed
    qed
  next
    case (Write f)
    with st i tsi have h: "holder' = holder" "ts' = ts[i := es]" by auto
    from g Write have ges: "guarded (holder = Some i) es" by simp
    show ?thesis
    proof (intro conjI allI impI)
      show "length ts' = length ts" by (simp add: h)
      fix j assume j: "j < length ts'"
      show "guarded (holder' = Some j) (ts' ! j)"
      proof (cases "j = i")
        case True
        with ges h i show ?thesis by simp
      next
        case False
        with inv j h have "guarded (holder = Some j) (ts ! j)" by auto
        with False h show ?thesis by simp
      qed
    qed
  qed
qed

lemma guarded_no_unguarded_access:
  assumes inv: "\<forall>j<length ts. guarded (holder = Some j) (ts ! j)"
  shows "\<not> unguarded_access i (holder, ts)"
proof (cases "i < length ts")
  case False
  then show ?thesis by simp
next
  case True
  show ?thesis
  proof (cases "ts ! i")
    case Nil
    then show ?thesis by simp
  next
    case (Cons e es)
    with inv True have "guarded (holder = Some i) (e # es)" by auto
    with Cons True show ?thesis by (cases e) auto
  qed
qed

lemma guarded_threads_no_races:
  "\<forall>j<length ts. guarded (holder = Some j) (ts ! j) \<Longrightarrow> \<not> races sched (holder, ts)"
proof (induction sched arbitrary: holder ts)
  case Nil
  show ?case by simp
next
  case (Cons i sched)
  from guarded_no_unguarded_access [OF Cons.prems]
  have a: "\<not> unguarded_access i (holder, ts)" .
  show ?case
  proof (cases "step i (holder, ts)")
    case None
    with a show ?thesis by simp
  next
    case (Some c')
    obtain holder' ts' where c': "c' = (holder', ts')" by (cases c')
    from step_keeps_guarded(1) [OF Cons.prems Some [unfolded c']]
    have "\<forall>j<length ts'. guarded (holder' = Some j) (ts' ! j)" by simp
    from Cons.IH [OF this] a Some c' show ?thesis by simp
  qed
qed

lemma guarded_calls_no_races:
  assumes "\<forall>t\<in>set ts. guarded False t"
  shows "\<not> races sched (None, ts)"
  by (rule guarded_threads_no_races) (use assms in simp)

text \<open>
  C8 (the code at the failing input). \<open>Value()\<close> is the single event that reads the
  value, and \<open>Grad()\<close> the single event that reads the gradient: neither takes the
  lock, while \<open>Payload()\<close> does. With one goroutine in \<open>ReplaceValue\<close> and another
  in \<open>Value()\<close> on the same parameter, the first takes the mutex and the second then
  reads the value while the first still holds it.
\<close>

theorem Value_and_Grad_take_no_lock:
  "events CValue (NewParam (Some \<lparr>rows = 1, cols = 1, data = [1]\<rparr>) []) = [Read F_value]
   \<and> \<not> guarded False (events CValue (NewParam (Some \<lparr>rows = 1, cols = 1, data = [1]\<rparr>) []))
   \<and> \<not> guarded False (events CGrad (NewParam (Some \<lparr>rows = 1, cols = 1, data = [1]\<rparr>) []))
   \<and> guarded False (events CPayload (NewParam (Some \<lparr>rows = 1, cols = 1, data = [1]\<rparr>) []))
   \<and> step 0 (None,
        [events (CReplaceValue (Some \<lparr>rows = 1, cols = 1, data = [2]\<rparr>))
           (NewParam (Some \<lparr>rows = 1, cols = 1, data = [1]\<rparr>) []),
         events CValue (NewParam (Some \<lparr>rows = 1, cols = 1, data = [1]\<rparr>) [])])
      = Some (Some 0, [[Write F_value, Write F_payload, Read F_storage, Unlock], [Read F_value]])
   \<and> unguarded_access 1
        (Some 0, [[Write F_value, Write F_payload, Read F_storage, Unlock], [Read F_value]])
   \<and> races [0, 1] (None,
        [events (CReplaceValue (Some \<lparr>rows = 1, cols = 1, data = [2]\<rparr>))
           (NewParam (Some \<lparr>rows = 1, cols = 1, data = [1]\<rparr>) []),
         events CValue (NewParam (Some \<lparr>rows = 1, cols = 1, data = [1]\<rparr>) [])])"
  by (simp add: NewParam_def)

end
